theory Spec2Isabelle
  imports Main
begin

section \<open>Strings of the source language\<close>

text \<open>
  A JavaScript string is a sequence of code units. The model uses \<^typ>\<open>string\<close>, one
  \<^typ>\<open>char\<close> per code unit, so it covers the code units U+0000 .. U+00FF.
\<close>

abbreviation dquote :: char where "dquote \<equiv> CHR 0x22"
abbreviation squote :: char where "squote \<equiv> CHR 0x27"
abbreviation backslash :: char where "backslash \<equiv> CHR 0x5C"
abbreviation colon :: char where "colon \<equiv> CHR 0x3A"
abbreviation newline :: char where "newline \<equiv> CHR 0x0A"
abbreviation tab :: char where "tab \<equiv> CHR 0x09"

text \<open>
  The white space and line terminators that \<^verbatim>\<open>String.prototype.trim\<close> removes, among the
  code units below U+0100: TAB, LF, VT, FF, CR, SPACE and NO-BREAK SPACE.
\<close>

definition isWhiteSpace :: "char \<Rightarrow> bool" where
  "isWhiteSpace c = (of_char c \<in> {9, 10, 11, 12, 13, 32, 160 :: nat})"

definition trim :: "string \<Rightarrow> string" where
  "trim s = rev (dropWhile isWhiteSpace (rev (dropWhile isWhiteSpace s)))"

definition startsWith :: "string \<Rightarrow> string \<Rightarrow> bool" where
  "startsWith s p = (take (length p) s = p)"

definition endsWith :: "string \<Rightarrow> string \<Rightarrow> bool" where
  "endsWith s p = (length p \<le> length s \<and> drop (length s - length p) s = p)"

text \<open>\<^verbatim>\<open>s.indexOf(c)\<close>: the first position of \<open>c\<close>, or \<open>-1\<close>.\<close>

primrec indexOf :: "string \<Rightarrow> char \<Rightarrow> int" where
  "indexOf [] c = - 1"
| "indexOf (x # xs) c =
     (if x = c then 0 else (let i = indexOf xs c in if i = - 1 then - 1 else i + 1))"

text \<open>
  \<^verbatim>\<open>s.substring(a, b)\<close>: both indices are clamped to the length and swapped when
  \<open>a > b\<close>.
\<close>

definition substring :: "string \<Rightarrow> nat \<Rightarrow> nat \<Rightarrow> string" where
  "substring s a b =
     (let a' = min a (length s); b' = min b (length s);
          lo = min a' b'; hi = max a' b'
      in take (hi - lo) (drop lo s))"

text \<open>
  \<^verbatim>\<open>String.prototype.toLowerCase\<close> on the code units below U+0100: the letters A .. Z and
  U+00C0 .. U+00DE without the multiplication sign U+00D7 move up by 32.
\<close>

definition toLowerChar :: "char \<Rightarrow> char" where
  "toLowerChar c =
     (let n = (of_char c :: nat)
      in if (65 \<le> n \<and> n \<le> 90) \<or> (192 \<le> n \<and> n \<le> 222 \<and> n \<noteq> 215)
         then char_of (n + 32) else c)"

definition toLowerCase :: "string \<Rightarrow> string" where
  "toLowerCase s = map toLowerChar s"

subsection \<open>Global replacement\<close>

text \<open>
  \<^verbatim>\<open>text.replace(/(p1|p2|...)/g, f)\<close> for a regular expression that is an alternation of
  literal, non-empty patterns: the text is scanned from the left; at each position the
  alternatives are tried in their order; a match is replaced by \<open>f\<close> of the matched text
  and the scan goes on behind the match, otherwise the code unit is copied.
\<close>

function replace_global :: "string list \<Rightarrow> (string \<Rightarrow> string) \<Rightarrow> string \<Rightarrow> string" where
  "replace_global alts f [] = []"
| "replace_global alts f (c # cs) =
     (case find (\<lambda>p. p \<noteq> [] \<and> startsWith (c # cs) p) alts of
        Some p \<Rightarrow> f p @ replace_global alts f (drop (length p) (c # cs))
      | None \<Rightarrow> c # replace_global alts f cs)"
  by pat_completeness auto
termination
proof (relation "measure (\<lambda>(alts, f, text). length text)")
  show "wf (measure (\<lambda>(alts, f, text). length text))" by simp
next
  fix alts :: "string list" and f :: "string \<Rightarrow> string" and c cs p
  assume "find (\<lambda>p. p \<noteq> [] \<and> startsWith (c # cs) p) alts = Some p"
  then have "p \<noteq> []" by (auto simp: find_Some_iff)
  then show "((alts, f, drop (length p) (c # cs)), (alts, f, c # cs))
      \<in> measure (\<lambda>(alts, f, text). length text)"
    by (cases p) auto
next
  fix alts :: "string list" and f :: "string \<Rightarrow> string" and c cs
  show "((alts, f, cs), (alts, f, c # cs)) \<in> measure (\<lambda>(alts, f, text). length text)"
    by simp
qed

subsection \<open>Regular expressions\<close>

text \<open>
  The three regular expressions of \<^verbatim>\<open>_getValue\<close> are anchored at both ends
  (\<^verbatim>\<open>^...$\<close>, no multiline flag), so \<^verbatim>\<open>test\<close> decides whether the whole text belongs to
  the language of the expression. The matcher takes derivatives.
\<close>

datatype rx =
    Fail
  | Empty
  | Pred "char \<Rightarrow> bool"
  | Seq rx rx
  | Alt rx rx
  | Opt rx
  | Plus rx

primrec nullable :: "rx \<Rightarrow> bool" where
  "nullable Fail = False"
| "nullable Empty = True"
| "nullable (Pred p) = False"
| "nullable (Seq r s) = (nullable r \<and> nullable s)"
| "nullable (Alt r s) = (nullable r \<or> nullable s)"
| "nullable (Opt r) = True"
| "nullable (Plus r) = nullable r"

primrec deriv :: "char \<Rightarrow> rx \<Rightarrow> rx" where
  "deriv c Fail = Fail"
| "deriv c Empty = Fail"
| "deriv c (Pred p) = (if p c then Empty else Fail)"
| "deriv c (Seq r s) =
     (if nullable r then Alt (Seq (deriv c r) s) (deriv c s) else Seq (deriv c r) s)"
| "deriv c (Alt r s) = Alt (deriv c r) (deriv c s)"
| "deriv c (Opt r) = deriv c r"
| "deriv c (Plus r) = Seq (deriv c r) (Opt (Plus r))"

primrec matches :: "rx \<Rightarrow> string \<Rightarrow> bool" where
  "matches r [] = nullable r"
| "matches r (c # cs) = matches (deriv c r) cs"

definition test :: "rx \<Rightarrow> string \<Rightarrow> bool" where
  "test r text = matches r text"

text \<open>\<^verbatim>\<open>\d\<close> is the class of the ten ASCII digits.\<close>

definition isDigit :: "char \<Rightarrow> bool" where
  "isDigit c = (48 \<le> (of_char c :: nat) \<and> (of_char c :: nat) \<le> 57)"

definition digit :: rx where
  "digit = Pred isDigit"

definition lit :: "char \<Rightarrow> rx" where
  "lit c = Pred (\<lambda>x. x = c)"

text \<open>\<^verbatim>\<open>r{n}\<close>: exactly \<open>n\<close> copies of \<open>r\<close>.\<close>

primrec times :: "nat \<Rightarrow> rx \<Rightarrow> rx" where
  "times 0 r = Empty"
| "times (Suc n) r = Seq r (times n r)"

text \<open>
  With the flag \<^verbatim>\<open>i\<close> (and without \<^verbatim>\<open>u\<close>) two code units match when their canonical forms
  are equal. The canonical form is the upper case of the code unit, as a code point:
  a .. z and U+00E0 .. U+00FE without the division sign U+00F7 move down by 32, the micro
  sign U+00B5 becomes U+039C and U+00FF becomes U+0178; the sharp s U+00DF, whose upper
  case has two code units, stays.
\<close>

definition canonicalize :: "char \<Rightarrow> nat" where
  "canonicalize c =
     (let n = (of_char c :: nat)
      in if (97 \<le> n \<and> n \<le> 122) \<or> (224 \<le> n \<and> n \<le> 254 \<and> n \<noteq> 247) then n - 32
         else if n = 181 then 924
         else if n = 255 then 376
         else n)"

definition lit_i :: "string \<Rightarrow> rx" where
  "lit_i s = foldr (\<lambda>c. Seq (Pred (\<lambda>x. canonicalize x = canonicalize c))) s Empty"

text \<open>\<^verbatim>\<open>/^[+-]?\d+(\.\d+)?$/\<close>\<close>

definition number_rx :: rx where
  "number_rx =
     Seq (Opt (Pred (\<lambda>x. x = CHR ''+'' \<or> x = CHR ''-'')))
       (Seq (Plus digit) (Opt (Seq (lit CHR ''.'') (Plus digit))))"

text \<open>\<^verbatim>\<open>/^(true|false)$/i\<close>\<close>

definition boolean_rx :: rx where
  "boolean_rx = Alt (lit_i ''true'') (lit_i ''false'')"

text \<open>\<^verbatim>\<open>/^\d{4}-\d{2}-\d{2}$/\<close>\<close>

definition date_rx :: rx where
  "date_rx =
     Seq (times 4 digit) (Seq (lit CHR ''-'')
       (Seq (times 2 digit) (Seq (lit CHR ''-'') (times 2 digit))))"

section \<open>Values\<close>

text \<open>
  The values the parser returns. \<open>JNumber text\<close> stands for \<^verbatim>\<open>Number(text)\<close> and
  \<open>JDate text\<close> for \<^verbatim>\<open>new Date(text)\<close>: the floating-point number and the time value
  themselves are not computed, the value keeps the text it is made from. An object is
  the list of its properties in insertion order.
\<close>

datatype jsval =
    JNull
  | JBoolean bool
  | JNumber string
  | JString string
  | JDate string
  | JArray "jsval list"
  | JObject "(string \<times> jsval) list"

section \<open>The value coercer\<close>

definition reverseTextEntityMap :: "(string \<times> string) list" where
  "reverseTextEntityMap =
     [([backslash, CHR ''n''], [newline]),
      ([backslash, CHR ''t''], [tab]),
      ([backslash, backslash], [backslash])]"

text \<open>
  \<^verbatim>\<open>_unescapeText\<close>: \<^verbatim>\<open>text.replace(/(\\n|\\t|\\\\)/g, (s) => reverseTextEntityMap[s])\<close>.
  A key that the table lacks would give \<^verbatim>\<open>undefined\<close>, which \<^verbatim>\<open>replace\<close> writes as text.
\<close>

definition unescapeText :: "string \<Rightarrow> string" where
  "unescapeText text =
     replace_global
       [[backslash, CHR ''n''], [backslash, CHR ''t''], [backslash, backslash]]
       (\<lambda>s. case map_of reverseTextEntityMap s of Some r \<Rightarrow> r | None \<Rightarrow> ''undefined'')
       text"

definition getValue :: "string \<Rightarrow> jsval" where
  "getValue text =
     (if startsWith text [dquote] \<and> length text > 2 \<and> endsWith text [dquote]
      then JString (unescapeText (substring text 1 (length text - 1)))
      else if startsWith text [squote] \<and> length text > 2 \<and> endsWith text [squote]
      then JString (replace_global [[squote, squote]] (\<lambda>s. [squote])
                      (substring text 1 (length text - 1)))
      else if test number_rx text then JNumber text
      else if test boolean_rx text then JBoolean (toLowerCase text = ''true'')
      else if test date_rx text then JDate text
      else if text = ''null'' then JNull
      else JString text)"

section \<open>The parser\<close>

text \<open>
  The argument of \<^verbatim>\<open>parser\<close> is \<^verbatim>\<open>undefined\<close>, \<^verbatim>\<open>null\<close> or a string.
\<close>

datatype input = Undefined | Null | Str string

text \<open>
  \<^verbatim>\<open>jsyaml.load\<close> belongs to the package js-yaml, which is not part of the sources; it is
  the parameter \<open>load\<close>, a function from the document text to the loaded value
  (\<open>Inr\<close>) or to the exception it throws (\<open>Inl\<close>). A result \<open>Inl\<close> of \<open>parser\<close> would be an
  exception that reaches the caller; the \<^verbatim>\<open>try\<close>/\<^verbatim>\<open>catch\<close> around the call of the loader
  turns every exception of the loader into the empty object.
\<close>

definition parser :: "(string \<Rightarrow> 'e + jsval) \<Rightarrow> input \<Rightarrow> 'e + jsval" where
  "parser load keyValueString =
     (case keyValueString of
        Undefined \<Rightarrow> Inr (JObject [])
      | Null \<Rightarrow> Inr (JObject [])
      | Str s \<Rightarrow>
          (let text = trim s
           in if text = [] then Inr (JObject [])
              else if startsWith text [dquote] \<or> startsWith text [squote]
                      \<or> indexOf text colon = - 1
              then Inr (JObject [(''_'', getValue text)])
              else (case load (''{'' @ text @ ''}'') of
                      Inl err \<Rightarrow> Inr (JObject [])
                    | Inr dataObject \<Rightarrow> Inr dataObject)))"

text \<open>A loader that throws on every document; it exercises the \<^verbatim>\<open>catch\<close> branch.\<close>

definition rejecting_loader :: "string \<Rightarrow> unit + jsval" where
  "rejecting_loader document = Inl ()"

section \<open>The rules of the value coercer as the specification words them\<close>

text \<open>
  Double-quoted text, after the quotes are stripped: one pass from the left that replaces
  backslash-n by a newline, backslash-t by a tab and backslash-backslash by one backslash,
  never looks again at what it has written, and copies everything else.
\<close>

fun unescape_spec :: "string \<Rightarrow> string" where
  "unescape_spec (c # d # rest) =
     (if c = backslash \<and> d = CHR ''n'' then newline # unescape_spec rest
      else if c = backslash \<and> d = CHR ''t'' then tab # unescape_spec rest
      else if c = backslash \<and> d = backslash then backslash # unescape_spec rest
      else c # unescape_spec (d # rest))"
| "unescape_spec [c] = [c]"
| "unescape_spec [] = []"

text \<open>
  Single-quoted text, after the quotes are stripped: every two consecutive single quotes
  become one; nothing else changes.
\<close>

fun collapse_spec :: "string \<Rightarrow> string" where
  "collapse_spec (c # d # rest) =
     (if c = squote \<and> d = squote then squote # collapse_spec rest
      else c # collapse_spec (d # rest))"
| "collapse_spec [c] = [c]"
| "collapse_spec [] = []"

text \<open>
  The strict date format: exactly four digits, a hyphen, exactly two digits, a hyphen,
  exactly two digits.
\<close>

definition yyyy_mm_dd :: "string \<Rightarrow> bool" where
  "yyyy_mm_dd t =
     (length t = 10
      \<and> list_all isDigit (take 4 t) \<and> t ! 4 = CHR ''-''
      \<and> list_all isDigit (take 2 (drop 5 t)) \<and> t ! 7 = CHR ''-''
      \<and> list_all isDigit (drop 8 t))"

section \<open>Facts about the string operations\<close>

lemma indexOf_ge: "- 1 \<le> indexOf s c"
  by (induction s) (auto simp: Let_def)

lemma indexOf_absent: "indexOf s c = - 1 \<longleftrightarrow> c \<notin> set s"
proof (induction s)
  case Nil
  show ?case by simp
next
  case (Cons x xs)
  have "- 1 \<le> indexOf xs c" by (rule indexOf_ge)
  with Cons show ?case by (auto simp: Let_def)
qed

lemma startsWith_single: "startsWith s [c] \<longleftrightarrow> s \<noteq> [] \<and> hd s = c"
  by (cases s) (auto simp: startsWith_def)

lemma endsWith_single: "endsWith s [c] \<longleftrightarrow> s \<noteq> [] \<and> last s = c"
proof (cases s rule: rev_cases)
  case Nil
  then show ?thesis by (simp add: endsWith_def)
next
  case (snoc ys y)
  then show ?thesis by (auto simp: endsWith_def)
qed

lemma substring_interior:
  "2 \<le> length s \<Longrightarrow> substring s (Suc 0) (length s - Suc 0) = butlast (tl s)"
  by (cases s) (auto simp: substring_def Let_def min_def max_def butlast_conv_take)

text \<open>What \<open>trim\<close> returns starts with no white space, so trimming again changes nothing.\<close>

lemma dropWhile_trim: "dropWhile isWhiteSpace (trim s) = trim s"
proof (cases "trim s")
  case Nil
  then show ?thesis by simp
next
  case (Cons x xs)
  let ?u = "dropWhile isWhiteSpace s"
  have split: "?u = trim s @ rev (takeWhile isWhiteSpace (rev ?u))"
  proof -
    have "rev (rev ?u) =
        rev (takeWhile isWhiteSpace (rev ?u) @ dropWhile isWhiteSpace (rev ?u))"
      by (simp only: takeWhile_dropWhile_id)
    then show ?thesis by (simp only: rev_rev_ident rev_append trim_def)
  qed
  with Cons have "?u \<noteq> []" and "hd ?u = x"
    by (metis append_is_Nil_conv list.distinct(1), metis hd_append2 list.sel(1) list.distinct(1))
  then have "\<not> isWhiteSpace x" using hd_dropWhile[of isWhiteSpace s] by auto
  with Cons show ?thesis by simp
qed

lemma trim_idem: "trim (trim s) = trim s"
proof -
  have "trim (trim s) = rev (dropWhile isWhiteSpace (rev (trim s)))"
    by (simp add: trim_def[of "trim s"] dropWhile_trim)
  also have "rev (trim s) = dropWhile isWhiteSpace (rev (dropWhile isWhiteSpace s))"
    by (simp add: trim_def)
  also have "rev (dropWhile isWhiteSpace
      (dropWhile isWhiteSpace (rev (dropWhile isWhiteSpace s)))) = trim s"
    by (simp add: trim_def dropWhile_idem)
  finally show ?thesis .
qed

lemma trim_all_space: "\<forall>c\<in>set s. isWhiteSpace c \<Longrightarrow> trim s = []"
proof -
  assume "\<forall>c\<in>set s. isWhiteSpace c"
  then have "dropWhile isWhiteSpace s = []" by (induction s) auto
  then have "trim s = rev (dropWhile isWhiteSpace (rev []))" by (simp only: trim_def)
  then show ?thesis by simp
qed

section \<open>The replacements of the source against the specification's passes\<close>

lemma unescapeText_spec: "unescapeText s = unescape_spec s"
  by (induction s rule: unescape_spec.induct)
     (auto simp: unescapeText_def startsWith_def reverseTextEntityMap_def)

lemma replace_quotes_spec:
  "replace_global [[squote, squote]] (\<lambda>s. [squote]) s = collapse_spec s"
  by (induction s rule: collapse_spec.induct) (auto simp: startsWith_def)

lemma collapse_spec_no_quote: "squote \<notin> set s \<Longrightarrow> collapse_spec s = s"
  by (induction s rule: collapse_spec.induct) auto

lemma collapse_spec_backslash_Cons:
  "collapse_spec (backslash # v) = backslash # collapse_spec v"
  by (cases v) auto

lemma collapse_spec_backslash:
  "collapse_spec (u @ backslash # v) = collapse_spec u @ backslash # collapse_spec v"
  by (induction u rule: collapse_spec.induct) (auto simp: collapse_spec_backslash_Cons)

section \<open>The language of a regular expression\<close>

lemma matches_Fail: "matches Fail s = False"
  by (induction s) auto

lemma matches_Empty: "matches Empty s = (s = [])"
  by (cases s) (auto simp: matches_Fail)

lemma matches_Pred: "matches (Pred p) s = (\<exists>c. s = [c] \<and> p c)"
  by (cases s) (auto simp: matches_Fail matches_Empty)

lemma matches_Alt: "matches (Alt a b) s = (matches a s \<or> matches b s)"
  by (induction s arbitrary: a b) auto

lemma matches_Opt: "matches (Opt r) s = (s = [] \<or> matches r s)"
  by (cases s) auto

lemma matches_Seq:
  "matches (Seq a b) s = (\<exists>u v. s = u @ v \<and> matches a u \<and> matches b v)"
proof (induction s arbitrary: a b)
  case Nil
  show ?case by simp
next
  case (Cons c cs)
  have split: "(\<exists>u v. c # cs = u @ v \<and> matches a u \<and> matches b v) \<longleftrightarrow>
      (nullable a \<and> matches (deriv c b) cs)
      \<or> (\<exists>u v. cs = u @ v \<and> matches (deriv c a) u \<and> matches b v)"
    (is "?L \<longleftrightarrow> ?N \<or> ?R")
  proof
    assume ?L
    then obtain u v where uv: "c # cs = u @ v" "matches a u" "matches b v" by blast
    show "?N \<or> ?R"
    proof (cases u)
      case Nil
      with uv show ?thesis by auto
    next
      case (Cons x u')
      with uv have "cs = u' @ v" "matches (deriv c a) u'" by auto
      with uv show ?thesis by blast
    qed
  next
    assume "?N \<or> ?R"
    then show ?L
    proof
      assume ?N
      then have "c # cs = [] @ (c # cs)" "matches a []" "matches b (c # cs)" by auto
      then show ?L by blast
    next
      assume ?R
      then obtain u v where "cs = u @ v" "matches (deriv c a) u" "matches b v" by blast
      then have "c # cs = (c # u) @ v" "matches a (c # u)" "matches b v" by auto
      then show ?L by blast
    qed
  qed
  show ?case
    by (simp add: Cons matches_Alt split) blast
qed

lemma matches_Seq_Empty: "matches (Seq Empty r) s = matches r s"
  by (simp add: matches_Seq matches_Empty)

lemma matches_Seq_Pred:
  "matches (Seq (Pred p) r) s = (case s of [] \<Rightarrow> False | c # cs \<Rightarrow> p c \<and> matches r cs)"
  by (cases s) (auto simp: matches_Seq matches_Pred matches_Fail matches_Empty)

lemma matches_Seq_assoc: "matches (Seq (Seq a b) c) s = matches (Seq a (Seq b c)) s"
proof
  assume "matches (Seq (Seq a b) c) s"
  then obtain u v w where "s = (u @ v) @ w" "matches a u" "matches b v" "matches c w"
    by (auto simp: matches_Seq)
  then show "matches (Seq a (Seq b c)) s"
    by (auto simp: matches_Seq)
next
  assume "matches (Seq a (Seq b c)) s"
  then obtain u v w where "s = (u @ v) @ w" "matches a u" "matches b v" "matches c w"
    by (auto simp: matches_Seq)
  then show "matches (Seq (Seq a b) c) s"
    unfolding matches_Seq[of "Seq a b"] matches_Seq[of a b] by blast
qed

lemma matches_Plus_Pred: "matches (Plus (Pred p)) s = (s \<noteq> [] \<and> list_all p s)"
proof (induction s)
  case Nil
  show ?case by simp
next
  case (Cons c cs)
  show ?case
  proof (cases "p c")
    case True
    then show ?thesis using Cons by (auto simp: matches_Seq_Empty matches_Opt)
  next
    case False
    then show ?thesis by (simp add: matches_Seq matches_Fail)
  qed
qed

lemma times_2: "times 2 r = Seq r (Seq r Empty)"
  by (simp add: eval_nat_numeral)

lemma times_4: "times 4 r = Seq r (Seq r (Seq r (Seq r Empty)))"
  by (simp add: eval_nat_numeral)

lemmas rx_defs = test_def number_rx_def boolean_rx_def date_rx_def digit_def lit_def lit_i_def
  isDigit_def canonicalize_def times_2 times_4

section \<open>The date expression\<close>

lemmas date_simps = test_def date_rx_def digit_def lit_def times_2 times_4
  matches_Seq_assoc matches_Seq_Pred matches_Seq_Empty matches_Empty

lemma yyyy_mm_dd_shape:
  assumes "yyyy_mm_dd t"
  shows "\<exists>y1 y2 y3 y4 m1 m2 d1 d2.
    t = [y1, y2, y3, y4, CHR ''-'', m1, m2, CHR ''-'', d1, d2]
    \<and> isDigit y1 \<and> isDigit y2 \<and> isDigit y3 \<and> isDigit y4
    \<and> isDigit m1 \<and> isDigit m2 \<and> isDigit d1 \<and> isDigit d2"
proof -
  from assms obtain y1 y2 y3 y4 h1 m1 m2 h2 d1 d2
    where t: "t = [y1, y2, y3, y4, h1, m1, m2, h2, d1, d2]"
    by (auto simp: yyyy_mm_dd_def eval_nat_numeral length_Suc_conv)
  from assms show ?thesis
    unfolding t yyyy_mm_dd_def by (simp add: eval_nat_numeral)
qed

lemma date_rx_iff: "test date_rx t = yyyy_mm_dd t"
proof
  assume "test date_rx t"
  then show "yyyy_mm_dd t"
    by (auto simp: date_simps yyyy_mm_dd_def eval_nat_numeral split: list.splits)
next
  assume "yyyy_mm_dd t"
  then obtain y1 y2 y3 y4 m1 m2 d1 d2
    where "t = [y1, y2, y3, y4, CHR ''-'', m1, m2, CHR ''-'', d1, d2]"
      and "isDigit y1" "isDigit y2" "isDigit y3" "isDigit y4"
      and "isDigit m1" "isDigit m2" "isDigit d1" "isDigit d2"
    using yyyy_mm_dd_shape by blast
  then show "test date_rx t"
    by (simp add: date_simps)
qed

lemma yyyy_mm_dd_inner_minus: "yyyy_mm_dd t \<Longrightarrow> CHR ''-'' \<in> set (tl t)"
  by (drule yyyy_mm_dd_shape) auto

lemma yyyy_mm_dd_hd: "yyyy_mm_dd t \<Longrightarrow> t \<noteq> [] \<and> isDigit (hd t)"
  by (drule yyyy_mm_dd_shape) auto

section \<open>The number and boolean expressions reject a date\<close>

lemma isDigit_minus: "\<not> isDigit CHR ''-''"
  by (simp add: isDigit_def)

lemma digits_no_minus: "list_all isDigit v \<Longrightarrow> CHR ''-'' \<notin> set v"
  using isDigit_minus by (auto simp: list_all_iff)

lemma number_rx_parts:
  assumes "test number_rx t"
  shows "\<exists>u v w. t = u @ v @ w \<and> (u = [] \<or> (\<exists>c. u = [c])) \<and> v \<noteq> [] \<and> list_all isDigit v
     \<and> (w = [] \<or> (\<exists>w'. w = CHR ''.'' # w' \<and> list_all isDigit w'))"
proof -
  from assms obtain u r where 1: "t = u @ r"
     "matches (Opt (Pred (\<lambda>x. x = CHR ''+'' \<or> x = CHR ''-''))) u"
     "matches (Seq (Plus digit) (Opt (Seq (lit CHR ''.'') (Plus digit)))) r"
    unfolding test_def number_rx_def matches_Seq[of "Opt _"] by blast
  from 1(3) obtain v w where 2: "r = v @ w" "matches (Plus digit) v"
     "matches (Opt (Seq (lit CHR ''.'') (Plus digit))) w"
    unfolding matches_Seq[of "Plus _"] by blast
  from 1(2) have u: "u = [] \<or> (\<exists>c. u = [c])" by (auto simp: matches_Opt matches_Pred)
  from 2(2) have v: "v \<noteq> []" "list_all isDigit v" by (auto simp: digit_def matches_Plus_Pred)
  from 2(3) have w: "w = [] \<or> (\<exists>w'. w = CHR ''.'' # w' \<and> list_all isDigit w')"
    by (auto simp: matches_Opt lit_def digit_def matches_Seq_Pred matches_Plus_Pred
        split: list.splits)
  from 1(1) 2(1) u v w show ?thesis by blast
qed

lemma number_rx_no_inner_minus:
  assumes "test number_rx t"
  shows "CHR ''-'' \<notin> set (tl t)"
proof -
  from number_rx_parts[OF assms] obtain u v w where t: "t = u @ v @ w"
    and u: "u = [] \<or> (\<exists>c. u = [c])"
    and v: "v \<noteq> []" "list_all isDigit v"
    and w: "w = [] \<or> (\<exists>w'. w = CHR ''.'' # w' \<and> list_all isDigit w')"
    by blast
  from v have nv: "CHR ''-'' \<notin> set v"
    by (simp add: digits_no_minus)
  from w have nw: "CHR ''-'' \<notin> set w"
  proof
    assume "w = []"
    then show ?thesis by simp
  next
    assume "\<exists>w'. w = CHR ''.'' # w' \<and> list_all isDigit w'"
    then obtain w' where "w = CHR ''.'' # w'" "list_all isDigit w'" by blast
    then show ?thesis by (simp add: digits_no_minus)
  qed
  from nv nw have nvw: "CHR ''-'' \<notin> set (v @ w)" by simp
  from u show ?thesis
  proof
    assume "u = []"
    with t v have "tl t = tl (v @ w)" by simp
    moreover from v have "set (tl (v @ w)) \<subseteq> set (v @ w)"
      by (cases v) auto
    ultimately show ?thesis using nvw by auto
  next
    assume "\<exists>c. u = [c]"
    with t have "tl t = v @ w" by auto
    with nvw show ?thesis by simp
  qed
qed

lemma yyyy_mm_dd_not_number: "yyyy_mm_dd t \<Longrightarrow> \<not> test number_rx t"
proof
  assume d: "yyyy_mm_dd t" and n: "test number_rx t"
  from d have "CHR ''-'' \<in> set (tl t)" by (rule yyyy_mm_dd_inner_minus)
  moreover from n have "CHR ''-'' \<notin> set (tl t)" by (rule number_rx_no_inner_minus)
  ultimately show False by simp
qed

lemma matches_lit_i_length: "matches (lit_i w) t \<Longrightarrow> length t = length w"
proof (induction w arbitrary: t)
  case Nil
  then show ?case by (simp add: lit_i_def matches_Empty)
next
  case (Cons c w)
  from Cons.prems obtain x t' where "t = x # t'" "matches (lit_i w) t'"
    by (auto simp: lit_i_def matches_Seq_Pred split: list.splits)
  with Cons.IH show ?case by simp
qed

lemma yyyy_mm_dd_not_boolean: "yyyy_mm_dd t \<Longrightarrow> \<not> test boolean_rx t"
proof
  assume d: "yyyy_mm_dd t" and b: "test boolean_rx t"
  from b have "matches (lit_i ''true'') t \<or> matches (lit_i ''false'') t"
    by (simp add: test_def boolean_rx_def matches_Alt)
  then have "length t = 4 \<or> length t = 5"
    using matches_lit_i_length[of "''true''" t] matches_lit_i_length[of "''false''" t] by auto
  moreover from d have "length t = 10" by (simp add: yyyy_mm_dd_def)
  ultimately show False by simp
qed

lemma yyyy_mm_dd_not_quoted:
  assumes "yyyy_mm_dd t"
  shows "\<not> startsWith t [dquote]" and "\<not> startsWith t [squote]"
  using yyyy_mm_dd_hd[OF assms] by (auto simp: startsWith_single isDigit_def)


section \<open>The key-value-list shape\<close>

text \<open>
  On a text in key-value-list shape the result is what the loader returns for the text
  wrapped in braces; the value coercer is not called on this path.
\<close>

lemma parser_delegates_to_loader:
  assumes "trim s \<noteq> []" and "\<not> startsWith (trim s) [dquote]"
    and "\<not> startsWith (trim s) [squote]" and "colon \<in> set (trim s)"
  shows "parser load (Str s) =
    (case load (''{'' @ trim s @ ''}'') of
       Inl err \<Rightarrow> Inr (JObject [])
     | Inr dataObject \<Rightarrow> Inr dataObject)"
  using assms by (simp add: parser_def Let_def indexOf_absent)

section \<open>The claims\<close>

text \<open>
  Claim C9. A token of exactly two quote characters, double or single, fails both
  quoted-string rules by the guard on the length, fails the number, boolean, date and null
  tests, and comes back verbatim, quotes included.
\<close>

theorem quoted_empty_token_verbatim:
  "\<not> length [dquote, dquote] > 2 \<and> \<not> length [squote, squote] > 2
   \<and> \<not> test number_rx [dquote, dquote] \<and> \<not> test number_rx [squote, squote]
   \<and> \<not> test boolean_rx [dquote, dquote] \<and> \<not> test boolean_rx [squote, squote]
   \<and> \<not> test date_rx [dquote, dquote] \<and> \<not> test date_rx [squote, squote]
   \<and> [dquote, dquote] \<noteq> ''null'' \<and> [squote, squote] \<noteq> ''null''
   \<and> getValue [dquote, dquote] = JString [dquote, dquote]
   \<and> getValue [squote, squote] = JString [squote, squote]"
  by (simp add: getValue_def startsWith_def endsWith_def rx_defs)

text \<open>
  Claim C2. The parser never raises: every call returns a value. It returns the empty
  object for \<^verbatim>\<open>undefined\<close>, for \<^verbatim>\<open>null\<close>, for a string that is empty after trimming, and
  for a string in key-value-list shape on which the loader throws.
\<close>

theorem parser_never_raises:
  fixes load :: "string \<Rightarrow> 'e + jsval"
  shows "(\<exists>v. parser load x = Inr v)
    \<and> parser load Undefined = Inr (JObject [])
    \<and> parser load Null = Inr (JObject [])
    \<and> (trim s = [] \<longrightarrow> parser load (Str s) = Inr (JObject []))
    \<and> (trim s \<noteq> [] \<and> \<not> startsWith (trim s) [dquote] \<and> \<not> startsWith (trim s) [squote]
         \<and> colon \<in> set (trim s) \<and> load (''{'' @ trim s @ ''}'') = Inl err
       \<longrightarrow> parser load (Str s) = Inr (JObject []))"
  by (cases x) (auto simp: parser_def Let_def indexOf_absent split: sum.splits)

theorem parser_never_raises_witness:
  "parser rejecting_loader (Str (''name: '' @ [squote] @ ''foo'')) = Inr (JObject [])
   \<and> parser rejecting_loader (Str ''  '') = Inr (JObject [])"
  using parser_never_raises [of rejecting_loader Null "''name: '' @ [squote] @ ''foo''" "()"]
    parser_never_raises [of rejecting_loader Null "''  ''" "()"]
  by (simp add: trim_def isWhiteSpace_def rejecting_loader_def startsWith_def)

text \<open>
  Claim C3. A trimmed text that is not empty, contains no colon and does not start with a
  double or single quote gives an object with the single key \<open>_\<close>, whose value is the
  value coercer applied to the text.
\<close>

theorem default_key_for_bare_value:
  assumes "trim s \<noteq> []" and "colon \<notin> set (trim s)"
    and "\<not> startsWith (trim s) [dquote]" and "\<not> startsWith (trim s) [squote]"
  shows "parser load (Str s) = Inr (JObject [(''_'', getValue (trim s))])"
  using assms by (simp add: parser_def Let_def indexOf_absent)

theorem default_key_for_bare_value_witness:
  "parser rejecting_loader (Str ''value3'') = Inr (JObject [(''_'', JString ''value3'')])"
  using default_key_for_bare_value [of "''value3''" rejecting_loader]
  by (simp add: trim_def isWhiteSpace_def getValue_def startsWith_def endsWith_def rx_defs)

text \<open>
  Claim C8. A trimmed input that starts with a double or single quote is a single value
  under the key \<open>_\<close>, also when it contains a colon, since the quote is looked for before
  the colon: the sole value \<^verbatim>\<open>'a: b'\<close> gives the one entry \<open>_\<close> with the string \<^verbatim>\<open>a: b\<close>.
\<close>

theorem quoted_input_is_default_key:
  assumes "startsWith (trim s) [dquote] \<or> startsWith (trim s) [squote]"
  shows "parser load (Str s) = Inr (JObject [(''_'', getValue (trim s))])
    \<and> parser load (Str (squote # ''a: b'' @ [squote]))
        = Inr (JObject [(''_'', JString ''a: b'')])"
proof -
  from assms have "trim s \<noteq> []" by (auto simp: startsWith_single)
  with assms have "parser load (Str s) = Inr (JObject [(''_'', getValue (trim s))])"
    by (auto simp: parser_def Let_def)
  moreover have "trim (squote # ''a: b'' @ [squote]) = squote # ''a: b'' @ [squote]"
    by (simp add: trim_def isWhiteSpace_def)
  moreover have "getValue (squote # ''a: b'' @ [squote]) = JString ''a: b''"
    by (simp add: getValue_def startsWith_def endsWith_def substring_def)
  ultimately show ?thesis by (simp add: parser_def Let_def startsWith_def)
qed

theorem quoted_input_is_default_key_witness:
  "parser rejecting_loader (Str (dquote # ''k: 1'' @ [dquote]))
     = Inr (JObject [(''_'', JString ''k: 1'')])"
  using quoted_input_is_default_key [of "dquote # ''k: 1'' @ [dquote]" rejecting_loader]
  by (simp add: trim_def isWhiteSpace_def getValue_def startsWith_def endsWith_def
      substring_def unescapeText_def)

text \<open>
  Claim C10. The parser gives the same result on a string and on the trimmed string, and
  the empty object on a string of white space only.
\<close>

theorem trim_invariance:
  "parser load (Str s) = parser load (Str (trim s))
   \<and> ((\<forall>c\<in>set s. isWhiteSpace c) \<longrightarrow> parser load (Str s) = Inr (JObject []))"
  by (simp add: parser_def Let_def trim_idem trim_all_space)

theorem trim_invariance_witness:
  "parser rejecting_loader (Str ''  value3 '') = parser rejecting_loader (Str ''value3'')
   \<and> parser rejecting_loader (Str [CHR '' '', tab, newline]) = Inr (JObject [])"
proof -
  have t: "trim ''  value3 '' = ''value3''"
    by (simp add: trim_def isWhiteSpace_def)
  have w: "\<forall>c\<in>set [CHR '' '', tab, newline]. isWhiteSpace c"
    by (simp add: isWhiteSpace_def)
  from trim_invariance [of rejecting_loader "''  value3 ''"]
  have "parser rejecting_loader (Str ''  value3 '') = parser rejecting_loader (Str ''value3'')"
    by (simp only: t)
  moreover from trim_invariance [of rejecting_loader "[CHR '' '', tab, newline]"] w
  have "parser rejecting_loader (Str [CHR '' '', tab, newline]) = Inr (JObject [])"
    by blast
  ultimately show ?thesis by blast
qed

text \<open>
  Claim C6. A token coerces to the date made from its text exactly when it has the strict
  format of four digits, hyphen, two digits, hyphen, two digits; such a token fails the
  quoted-string, number and boolean rules. The token \<^verbatim>\<open>2021-6-1\<close> has not the format and
  comes back as the same string.
\<close>

theorem date_iff_yyyy_mm_dd:
  "(getValue t = JDate t \<longleftrightarrow> yyyy_mm_dd t)
   \<and> \<not> yyyy_mm_dd ''2021-6-1''
   \<and> getValue ''2021-6-1'' = JString ''2021-6-1''"
proof -
  have "getValue t = JDate t" if "yyyy_mm_dd t"
    using that yyyy_mm_dd_not_quoted[OF that] yyyy_mm_dd_not_number[OF that]
      yyyy_mm_dd_not_boolean[OF that]
    by (simp add: getValue_def date_rx_iff)
  moreover have "yyyy_mm_dd t" if "getValue t = JDate t"
    using that by (auto simp: getValue_def date_rx_iff split: if_splits)
  moreover have "\<not> yyyy_mm_dd ''2021-6-1''"
    by (simp add: yyyy_mm_dd_def)
  moreover have "getValue ''2021-6-1'' = JString ''2021-6-1''"
    by (simp add: getValue_def startsWith_def endsWith_def rx_defs)
  ultimately show ?thesis by blast
qed

theorem date_iff_yyyy_mm_dd_witness:
  "getValue ''2021-06-01'' = JDate ''2021-06-01'' \<and> yyyy_mm_dd ''2021-06-01''"
proof -
  have "yyyy_mm_dd ''2021-06-01''"
    by (simp add: yyyy_mm_dd_def isDigit_def eval_nat_numeral)
  with date_iff_yyyy_mm_dd [of "''2021-06-01''"] show ?thesis by simp
qed

text \<open>
  Claim C4. For a token that starts and ends with a double quote and is longer than two
  code units, the value is the string obtained by stripping the two quotes and running
  the one-pass unescaping of the three sequences over the interior.
\<close>

theorem double_quoted_unescape:
  assumes "startsWith t [dquote]" and "endsWith t [dquote]" and "length t > 2"
  shows "getValue t = JString (unescape_spec (butlast (tl t)))"
  using assms by (simp add: getValue_def substring_interior unescapeText_spec)

theorem double_quoted_unescape_witness:
  "getValue [dquote, CHR ''a'', backslash, CHR ''n'', CHR ''b'', backslash, backslash, CHR ''n'',
             backslash, dquote, backslash, CHR ''x'', dquote]
   = JString [CHR ''a'', newline, CHR ''b'', backslash, CHR ''n'', backslash, dquote,
              backslash, CHR ''x'']"
  using double_quoted_unescape [of "[dquote, CHR ''a'', backslash, CHR ''n'', CHR ''b'',
    backslash, backslash, CHR ''n'', backslash, dquote, backslash, CHR ''x'', dquote]"]
  by (simp add: startsWith_def endsWith_def)

text \<open>
  Claim C5. For a token that starts and ends with a single quote and is longer than two
  code units, the value is the string obtained by stripping the two quotes and replacing
  every two consecutive single quotes of the interior by one. No backslash is processed:
  an interior without single quote comes back as it is, and a backslash stays where it is
  between the results for the text on its left and on its right.
\<close>

theorem single_quoted_collapse:
  assumes "startsWith t [squote]" and "endsWith t [squote]" and "length t > 2"
  shows "getValue t = JString (collapse_spec (butlast (tl t)))
    \<and> (squote \<notin> set (butlast (tl t)) \<longrightarrow> getValue t = JString (butlast (tl t)))
    \<and> (butlast (tl t) = u @ backslash # v
         \<longrightarrow> getValue t = JString (collapse_spec u @ backslash # collapse_spec v))"
proof -
  from assms have "\<not> startsWith t [dquote]"
    by (auto simp: startsWith_single)
  with assms have "getValue t = JString (collapse_spec (butlast (tl t)))"
    by (simp add: getValue_def substring_interior replace_quotes_spec)
  then show ?thesis
    by (auto simp: collapse_spec_no_quote collapse_spec_backslash)
qed

theorem single_quoted_collapse_witness:
  "getValue (squote # ''a'' @ [squote, squote] @ ''b'' @ [backslash] @ ''nc'' @ [squote])
     = JString (''a'' @ [squote] @ ''b'' @ [backslash] @ ''nc'')
   \<and> getValue (squote # ''foo '' @ [backslash] @ ''t bar'' @ [squote])
     = JString (''foo '' @ [backslash] @ ''t bar'')"
  using single_quoted_collapse
    [of "squote # ''a'' @ [squote, squote] @ ''b'' @ [backslash] @ ''nc'' @ [squote]"
      "''a'' @ [squote, squote] @ ''b''" "''nc''"]
    single_quoted_collapse
    [of "squote # ''foo '' @ [backslash] @ ''t bar'' @ [squote]" "''foo ''" "''t bar''"]
  by (simp add: startsWith_def endsWith_def)

end
